theory Spec2Isabelle
  imports Main
begin

section \<open>The annotation trees read by \<open>generate_rust.py\<close>\<close>

text \<open>
  The generator never looks at source text directly: \<open>extract_classes\<close> hands the text
  to Python's \<open>ast.parse\<close> and works on the tree it returns. The embedding starts at
  that tree. Only the node classes the generator tests with \<open>isinstance\<close> get a
  constructor of their own; every other expression node is \<open>OtherExpr\<close>.

  A string is the \<open>char list\<close> of the UTF-8 bytes of the Python \<open>str\<close>. Comparing,
  concatenating, joining and replacing an ASCII character work on the bytes as they do
  on the code points, and so does the regular expression of \<open>to_snake_case\<close>, whose
  classes \<open>[a-z]\<close> and \<open>[A-Z]\<close> hold ASCII letters only.
\<close>

datatype const_val =
    CNone
  | CStr string
  | COther

datatype operator = BitOr | OtherOp

datatype expr =
    Constant const_val
  | Name string
  | Subscript expr expr
  | BinOp expr operator expr
  | Tuple "expr list"
  | Call expr "expr list"
  | OtherExpr

datatype py_error = IndexError | AttributeError

section \<open>Override tables\<close>

definition FIELD_TYPE_OVERRIDES :: "string \<times> string \<rightharpoonup> string" where
  "FIELD_TYPE_OVERRIDES = map_of
     [((''Flag'', ''aliases''), ''Option<Vec<String>>''),
      ((''SyncSupport'', ''queues''), ''Option<Vec<String>>''),
      ((''SyncSupport'', ''stages''), ''Option<Vec<Flag>>''),
      ((''SyncEquivalent'', ''stages''), ''Option<Vec<Flag>>''),
      ((''SyncEquivalent'', ''accesses''), ''Option<Vec<Flag>>''),
      ((''VulkanObject'', ''headerVersion''), ''String''),
      ((''Param'', ''alias''), ''Option<String>''),
      ((''Constant'', ''value''), ''ConstantValue'')]"

definition BOXED_FIELDS :: "(string \<times> string) set" where
  "BOXED_FIELDS = {(''Handle'', ''parent'')}"

definition INT_TYPE_OVERRIDES :: "string \<times> string \<rightharpoonup> string" where
  "INT_TYPE_OVERRIDES = map_of
     [((''EnumField'', ''value''), ''i64''),
      ((''Flag'', ''value''), ''u64'')]"

definition RESERVED_KEYWORDS :: "string set" where
  "RESERVED_KEYWORDS = {''type'', ''struct'', ''const''}"

text \<open>Python's \<open>d.get(k, default)\<close>.\<close>

definition dict_get :: "('k \<rightharpoonup> 'v) \<Rightarrow> 'k \<Rightarrow> 'v \<Rightarrow> 'v" where
  "dict_get d k dflt = (case d k of None \<Rightarrow> dflt | Some v \<Rightarrow> v)"

text \<open>
  \<open>if override:\<close> tests the truth value of what \<open>dict.get\<close> returned: \<open>None\<close> and
  the empty string are both false.
\<close>

fun truthy :: "string option \<Rightarrow> bool" where
  "truthy None = False"
| "truthy (Some s) = (s \<noteq> [])"

section \<open>\<open>parse_type\<close>\<close>

text \<open>
  The function is a chain of \<open>if isinstance(...)\<close> blocks that either return or fall
  through to the next block; whatever falls through all of them returns \<open>UNKNOWN\<close>.
  The only exception it can raise is the \<open>IndexError\<close> of \<open>node.slice.elts[0]\<close> or
  \<open>elts[1]\<close> on a \<open>dict[...]\<close> subscript whose tuple has fewer than two elements.

  In \<open>base = node.value.id if isinstance(node.value, ast.Name) else str(node.value)\<close>
  the \<open>str\<close> of a node object is the default one of Python objects, which prints the
  address of the object (\<open><ast.Attribute object at 0x7f...>\<close>) and so differs from run
  to run. It is the one value the program reads that is not fixed by the source text.
  The first argument \<open>node_str\<close> of \<open>parse_type\<close> stands for \<open>str\<close> on nodes in the
  run at hand.
\<close>

fun parse_type :: "(expr \<Rightarrow> string) \<Rightarrow> expr \<Rightarrow> string \<Rightarrow> string \<Rightarrow> py_error + string" where
  "parse_type node_str node class_name field_name =
    (let override = FIELD_TYPE_OVERRIDES (class_name, field_name) in
     if truthy override then Inr (the override)
     else case node of
       Constant CNone \<Rightarrow> Inr ''None''
     | Name name \<Rightarrow>
         (if name = ''str'' then Inr ''String''
          else if name = ''bool'' then Inr ''bool''
          else if name = ''int''
            then Inr (dict_get INT_TYPE_OVERRIDES (class_name, field_name) ''u32'')
          else if name = ''float'' then Inr ''f64''
          else Inr name)
     | Subscript value_node slice \<Rightarrow>
         (let base = (case value_node of Name i \<Rightarrow> i | _ \<Rightarrow> node_str value_node) in
          if base = ''list'' then
            (case parse_type node_str slice class_name field_name of
               Inl e \<Rightarrow> Inl e
             | Inr inner \<Rightarrow> Inr (''Vec<'' @ inner @ ''>''))
          else if base = ''dict'' then
            (case slice of
               Tuple elts \<Rightarrow>
                 (case elts of
                    [] \<Rightarrow> Inl IndexError
                  | k # rest \<Rightarrow>
                      (case parse_type node_str k class_name field_name of
                         Inl e \<Rightarrow> Inl e
                       | Inr key \<Rightarrow>
                           (case rest of
                              [] \<Rightarrow> Inl IndexError
                            | v # _ \<Rightarrow>
                                (case parse_type node_str v class_name field_name of
                                   Inl e \<Rightarrow> Inl e
                                 | Inr val \<Rightarrow>
                                     Inr (''IndexMap<'' @ key @ '', '' @ val @ ''>'')))))
             | _ \<Rightarrow> Inr ''UNKNOWN'')
          else Inr ''UNKNOWN'')
     | BinOp l BitOr r \<Rightarrow>
         (case parse_type node_str l class_name field_name of
            Inl e \<Rightarrow> Inl e
          | Inr left \<Rightarrow>
              (case parse_type node_str r class_name field_name of
                 Inl e \<Rightarrow> Inl e
               | Inr right \<Rightarrow>
                   (if right = ''None'' then
                      (if left = ''int'' \<and> (class_name, field_name) = (''Constant'', ''value'')
                         then Inr ''ConstantValue''
                       else if (class_name, field_name) \<in> BOXED_FIELDS
                         then Inr (''Option<Box<'' @ left @ ''>>'')
                       else Inr (''Option<'' @ left @ ''>''))
                    else if left = ''int'' \<and> right = ''float'' then Inr ''ConstantValue''
                    else if left = ''str'' \<and> right = ''None'' then Inr ''Option<String>''
                    else Inr ''UNKNOWN'')))
     | Constant (CStr name) \<Rightarrow>
         (if (class_name, field_name) \<in> BOXED_FIELDS
            then Inr (''Option<Box<'' @ name @ ''>>'')
          else Inr name)
     | _ \<Rightarrow> Inr ''UNKNOWN'')"

declare parse_type.simps [simp del]

section \<open>String helpers of the Python library\<close>

definition ascii_lower :: string where
  "ascii_lower = ''abcdefghijklmnopqrstuvwxyz''"

definition ascii_upper :: string where
  "ascii_upper = ''ABCDEFGHIJKLMNOPQRSTUVWXYZ''"

definition is_lower :: "char \<Rightarrow> bool" where
  "is_lower c = (c \<in> set ascii_lower)"

definition is_upper :: "char \<Rightarrow> bool" where
  "is_upper c = (c \<in> set ascii_upper)"

definition is_cased :: "char \<Rightarrow> bool" where
  "is_cased c = (is_lower c \<or> is_upper c)"

definition to_lower :: "char \<Rightarrow> char" where
  "to_lower c = (case map_of (zip ascii_upper ascii_lower) c of None \<Rightarrow> c | Some l \<Rightarrow> l)"

definition to_upper :: "char \<Rightarrow> char" where
  "to_upper c = (case map_of (zip ascii_lower ascii_upper) c of None \<Rightarrow> c | Some u \<Rightarrow> u)"

text \<open>
  \<open>str.lower()\<close> and \<open>str.title()\<close> follow the Unicode character database of the
  interpreter. On text that is all ASCII they do what is written out below. On other
  text they are taken as they are: the value \<open>py\<close> holds the two methods as functions
  on strings, and every property below is stated for any such value.
\<close>

datatype str_methods =
  StrMethods (str_lower: "string \<Rightarrow> string") (str_title: "string \<Rightarrow> string")

definition is_ascii :: "char \<Rightarrow> bool" where
  "is_ascii c = (\<not> digit7 c)"

definition lower :: "str_methods \<Rightarrow> string \<Rightarrow> string" where
  "lower py s = (if list_all is_ascii s then map to_lower s else str_lower py s)"

text \<open>
  On ASCII text \<open>str.title()\<close> lowercases a character that follows a cased character
  and uppercases any other character.
\<close>

fun title_from :: "bool \<Rightarrow> string \<Rightarrow> string" where
  "title_from previous_is_cased [] = []"
| "title_from previous_is_cased (c # cs) =
     (if previous_is_cased then to_lower c else to_upper c) # title_from (is_cased c) cs"

definition title :: "str_methods \<Rightarrow> string \<Rightarrow> string" where
  "title py s = (if list_all is_ascii s then title_from False s else str_title py s)"

text \<open>\<open>s.replace(old, new)\<close> for a pattern \<open>old\<close> of one character.\<close>

definition replace :: "string \<Rightarrow> char \<Rightarrow> string \<Rightarrow> string" where
  "replace s old new = concat (map (\<lambda>c. if c = old then new else [c]) s)"

text \<open>\<open>sep.join(xs)\<close>.\<close>

fun join :: "string \<Rightarrow> string list \<Rightarrow> string" where
  "join sep [] = []"
| "join sep [x] = x"
| "join sep (x # y # ys) = x @ sep @ join sep (y # ys)"

text \<open>The decimal text of a natural number, as \<open>f"{i}"\<close> prints a non-negative \<open>int\<close>.\<close>

definition digit_char :: "nat \<Rightarrow> char" where
  "digit_char d = ''0123456789'' ! d"

fun str_nat :: "nat \<Rightarrow> string" where
  "str_nat n = (if n < 10 then [digit_char n] else str_nat (n div 10) @ [digit_char (n mod 10)])"

declare str_nat.simps [simp del]

section \<open>\<open>to_snake_case\<close>\<close>

text \<open>
  \<open>re.sub(r"([a-z])([A-Z])", r"\1_\2", name)\<close> scans left to right; a match consumes
  both characters, so matches never overlap.
\<close>

fun re_sub_camel :: "string \<Rightarrow> string" where
  "re_sub_camel (a # b # rest) =
     (if is_lower a \<and> is_upper b then a # CHR ''_'' # b # re_sub_camel rest
      else a # re_sub_camel (b # rest))"
| "re_sub_camel s = s"

definition to_snake_case :: "str_methods \<Rightarrow> string \<Rightarrow> string" where
  "to_snake_case py name = lower py (re_sub_camel name)"

section \<open>\<open>generate_rust\<close>\<close>

type_synonym field_spec = "string \<times> string"
type_synonym record_spec = "string \<times> field_spec list"
type_synonym enum_spec = "string \<times> string list"

definition preamble :: "string list" where
  "preamble =
     [''use indexmap::IndexMap;'',
      ''use serde::{Deserialize, Serialize};'',
      ''use serde_repr::{Deserialize_repr, Serialize_repr};'',
      []]"

definition order :: "string list" where
  "order =
     [''FeatureRequirement'', ''Extension'', ''Version'', ''Legacy'', ''Handle'',
      ''ExternSync'', ''Param'', ''CommandScope'', ''Command'', ''Member'', ''Struct'',
      ''EnumField'', ''Enum'', ''Flag'', ''Bitmask'', ''Flags'', ''ConstantValue'',
      ''Constant'', ''FormatComponent'', ''FormatPlane'', ''Format'', ''SyncSupport'',
      ''SyncEquivalent'', ''SyncStage'', ''SyncAccess'', ''SyncPipelineStage'',
      ''SyncPipeline'', ''SpirvEnables'', ''Spirv'', ''VideoRequiredCapabilities'',
      ''VideoFormat'', ''VideoProfileMember'', ''VideoProfiles'', ''VideoCodec'',
      ''VideoStdHeader'', ''VideoStd'', ''VulkanObject'']"

text \<open>
  A dict comprehension \<open>{k: v for k, v in pairs}\<close> stores the pairs one after the
  other, so a later pair replaces an earlier one with the same key.
\<close>

definition dict_of :: "('k \<times> 'v) list \<Rightarrow> ('k \<rightharpoonup> 'v)" where
  "dict_of pairs = foldl (\<lambda>d (k, v). d(k \<mapsto> v)) Map.empty pairs"

definition constant_value_block :: "string list" where
  "constant_value_block =
     [''#[derive(Clone, Debug, Deserialize, Serialize)]'',
      ''#[serde(untagged)]'',
      ''pub enum ConstantValue {'',
      ''    Int(u64),'',
      ''    Float(f64),'',
      ''}'',
      []]"

text \<open>
  The identifier of an enum variant: the value of the variable \<open>rust_name\<close> when the
  variant's line is appended.
\<close>

definition rust_name :: "str_methods \<Rightarrow> string \<Rightarrow> string" where
  "rust_name py v =
     (let rust_name = replace (title py (replace v (CHR ''_'') '' '')) (CHR '' '') []
      in if rust_name = ''None'' then ''None'' else rust_name)"

text \<open>The loop \<open>for i, v in enumerate(values, 1)\<close>; \<open>lines\<close> is the list being built.\<close>

fun enum_loop :: "str_methods \<Rightarrow> string list \<Rightarrow> nat \<Rightarrow> string list \<Rightarrow> string list" where
  "enum_loop py lines i [] = lines"
| "enum_loop py lines i (v # values) =
     enum_loop py (lines @ [''    '' @ rust_name py v @ '' = '' @ str_nat i @ '','']) (i + 1) values"

text \<open>The loop \<open>for field_name, rust_type in fields\<close>.\<close>

fun field_loop :: "str_methods \<Rightarrow> string list \<Rightarrow> field_spec list \<Rightarrow> string list" where
  "field_loop py lines [] = lines"
| "field_loop py lines ((field_name, rust_type) # fields) =
     (let snake_name = to_snake_case py field_name;
          needs_rename = (snake_name \<noteq> field_name \<or> field_name \<in> RESERVED_KEYWORDS);
          snake_name = (if field_name \<in> RESERVED_KEYWORDS then field_name @ ''_'' else snake_name);
          lines = (if needs_rename
                   then lines @ [''    #[serde(rename = '' @ [CHR 0x22] @ field_name @ [CHR 0x22] @ '')]'']
                   else lines)
      in field_loop py (lines @ [''    pub '' @ snake_name @ '': '' @ rust_type @ '','']) fields)"

text \<open>\<open>derives.insert(2, "Default")\<close>.\<close>

definition list_insert :: "nat \<Rightarrow> 'a \<Rightarrow> 'a list \<Rightarrow> 'a list" where
  "list_insert i x xs = take i xs @ x # drop i xs"

text \<open>One pass of the loop \<open>for name in order\<close>: the \<open>if\<close>/\<open>elif\<close>/\<open>elif\<close> chain has no \<open>else\<close>.\<close>

definition order_step ::
  "str_methods \<Rightarrow> (string \<rightharpoonup> field_spec list) \<Rightarrow> (string \<rightharpoonup> string list)
     \<Rightarrow> string list \<Rightarrow> string \<Rightarrow> string list" where
  "order_step py dc_map enum_map lines name =
     (if name = ''ConstantValue'' then lines @ constant_value_block
      else if enum_map name \<noteq> None then
        (let values = the (enum_map name);
             lines = lines @
               [''#[derive(Clone, Copy, Debug, Deserialize_repr, Eq, PartialEq, Serialize_repr)]''];
             lines = lines @ [''#[repr(u8)]''];
             lines = lines @ [''pub enum '' @ name @ '' {''];
             lines = enum_loop py lines 1 values;
             lines = lines @ [''}'']
         in lines @ [[]])
      else if dc_map name \<noteq> None then
        (let fields = the (dc_map name);
             derives = [''Clone'', ''Debug'', ''Deserialize'', ''Serialize''];
             derives = (if name = ''VideoStd'' then list_insert 2 ''Default'' derives else derives);
             lines = lines @ [''#[derive('' @ join '', '' derives @ '')]''];
             lines = lines @ [''pub struct '' @ name @ '' {''];
             lines = field_loop py lines fields;
             lines = lines @ [''}'']
         in lines @ [[]])
      else lines)"

definition generate_lines ::
  "str_methods \<Rightarrow> record_spec list \<Rightarrow> enum_spec list \<Rightarrow> string list" where
  "generate_lines py dataclasses enums =
     (let dc_map = dict_of dataclasses;
          enum_map = dict_of enums
      in foldl (order_step py dc_map enum_map) preamble order)"

definition generate_rust :: "str_methods \<Rightarrow> record_spec list \<Rightarrow> enum_spec list \<Rightarrow> string" where
  "generate_rust py dataclasses enums = join [CHR 0x0A] (generate_lines py dataclasses enums)"

section \<open>\<open>extract_classes\<close>\<close>

text \<open>
  Statement nodes. \<open>ClassDef name bases decorator_list body\<close>, \<open>Assign targets value\<close>
  and \<open>AnnAssign target annotation\<close> are the three the extractor inspects. Any other
  node that can hold statements (a function, an \<open>if\<close>, a \<open>try\<close> and each of its
  handlers, ...) is \<open>OtherStmt\<close> with its child nodes in the order
  \<open>ast.iter_child_nodes\<close> gives them. Expression nodes are left out of the walk:
  they are never class definitions and contain none.
\<close>

datatype stmt =
    ClassDef string "expr list" "expr list" "stmt list"
  | Assign "expr list" expr
  | AnnAssign expr expr
  | OtherStmt "stmt list"

fun child_nodes :: "stmt \<Rightarrow> stmt list" where
  "child_nodes (ClassDef name bases decorator_list body) = body"
| "child_nodes (OtherStmt children) = children"
| "child_nodes _ = []"

text \<open>
  \<open>ast.walk\<close> keeps a queue: it pops the first node, appends that node's children and
  yields the node. The argument is the queue; it starts as the body of the module.
\<close>

function ast_walk :: "stmt list \<Rightarrow> stmt list" where
  "ast_walk [] = []"
| "ast_walk (node # todo) = node # ast_walk (todo @ child_nodes node)"
  by pat_completeness auto
termination
proof (relation "measure (size_list size)")
  show "wf (measure (size_list size))" by simp
next
  fix node :: stmt and todo :: "stmt list"
  have "size_list size (child_nodes node) < Suc (size node)"
    by (cases node) simp_all
  then show "(todo @ child_nodes node, node # todo) \<in> measure (size_list size)"
    by simp
qed

definition is_dataclass_decorator :: "expr \<Rightarrow> bool" where
  "is_dataclass_decorator d =
     (case d of
        Name i \<Rightarrow> i = ''dataclass''
      | Call (Name i) args \<Rightarrow> i = ''dataclass''
      | _ \<Rightarrow> False)"

definition is_enum_base :: "expr \<Rightarrow> bool" where
  "is_enum_base b = (case b of Name i \<Rightarrow> i = ''Enum'' | _ \<Rightarrow> False)"

text \<open>
  The loop over the body of an enum class. \<open>item.targets[0].id\<close> raises
  \<open>AttributeError\<close> when the first target is not a \<open>Name\<close>.
\<close>

fun values_loop :: "string list \<Rightarrow> stmt list \<Rightarrow> py_error + string list" where
  "values_loop values [] = Inr values"
| "values_loop values (Assign targets value # body) =
     (case targets of
        [] \<Rightarrow> Inl IndexError
      | Name name # _ \<Rightarrow> values_loop (values @ [name]) body
      | _ # _ \<Rightarrow> Inl AttributeError)"
| "values_loop values (_ # body) = values_loop values body"

text \<open>The loop over the body of a dataclass.\<close>

fun fields_loop ::
  "(expr \<Rightarrow> string) \<Rightarrow> string \<Rightarrow> field_spec list \<Rightarrow> stmt list \<Rightarrow> py_error + field_spec list" where
  "fields_loop node_str class_name fields [] = Inr fields"
| "fields_loop node_str class_name fields (AnnAssign (Name field_name) annotation # body) =
     (case parse_type node_str annotation class_name field_name of
        Inl e \<Rightarrow> Inl e
      | Inr rust_type \<Rightarrow>
          fields_loop node_str class_name (fields @ [(field_name, rust_type)]) body)"
| "fields_loop node_str class_name fields (_ # body) = fields_loop node_str class_name fields body"

text \<open>One pass of \<open>for node in ast.walk(tree)\<close> on the pair \<open>(dataclasses, enums)\<close>.\<close>

fun walk_step ::
  "(expr \<Rightarrow> string) \<Rightarrow> record_spec list \<times> enum_spec list \<Rightarrow> stmt
     \<Rightarrow> py_error + record_spec list \<times> enum_spec list" where
  "walk_step node_str (dataclasses, enums) (ClassDef name bases decorator_list body) =
     (let is_dataclass = list_ex is_dataclass_decorator decorator_list;
          is_enum = list_ex is_enum_base bases
      in if is_enum then
           (case values_loop [] body of
              Inl e \<Rightarrow> Inl e
            | Inr values \<Rightarrow> Inr (dataclasses, enums @ [(name, values)]))
         else if is_dataclass then
           (case fields_loop node_str name [] body of
              Inl e \<Rightarrow> Inl e
            | Inr fields \<Rightarrow> Inr (dataclasses @ [(name, fields)], enums))
         else Inr (dataclasses, enums))"
| "walk_step node_str (dataclasses, enums) _ = Inr (dataclasses, enums)"

fun walk_loop ::
  "(expr \<Rightarrow> string) \<Rightarrow> record_spec list \<times> enum_spec list \<Rightarrow> stmt list
     \<Rightarrow> py_error + record_spec list \<times> enum_spec list" where
  "walk_loop node_str acc [] = Inr acc"
| "walk_loop node_str acc (node # nodes) =
     (case walk_step node_str acc node of
        Inl e \<Rightarrow> Inl e
      | Inr acc' \<Rightarrow> walk_loop node_str acc' nodes)"

text \<open>The argument is the body of the module that \<open>ast.parse(source)\<close> returned.\<close>

definition extract_classes ::
  "(expr \<Rightarrow> string) \<Rightarrow> stmt list \<Rightarrow> py_error + record_spec list \<times> enum_spec list" where
  "extract_classes node_str tree = walk_loop node_str ([], []) (ast_walk tree)"

section \<open>\<open>main\<close>\<close>

text \<open>
  \<open>Inr text\<close>: \<open>rs_file.write_text\<close> is reached and writes \<open>text\<close>. \<open>Inl e\<close>: the
  exception \<open>e\<close> leaves \<open>main\<close> before the write, and no file is written. There is no
  \<open>try\<close> in the program.
\<close>

definition main :: "(expr \<Rightarrow> string) \<Rightarrow> str_methods \<Rightarrow> stmt list \<Rightarrow> py_error + string" where
  "main node_str py tree =
     (case extract_classes node_str tree of
        Inl e \<Rightarrow> Inl e
      | Inr (dataclasses, enums) \<Rightarrow> Inr (generate_rust py dataclasses enums))"

text \<open>The \<open>str\<close> of two runs, for the evaluations below.\<close>

definition sample_str :: "expr \<Rightarrow> string" where
  "sample_str node = ''<ast.AST object at 0x7f3c5a1d2e90>''"

definition another_str :: "expr \<Rightarrow> string" where
  "another_str node = ''<ast.AST object at 0x7fd2e08b4c10>''"

text \<open>
  String methods for the evaluations below. They are on ASCII text, where the two
  functions are not consulted.
\<close>

definition sample_py :: str_methods where
  "sample_py = StrMethods (\<lambda>s. s) (\<lambda>s. s)"

section \<open>Properties of \<open>parse_type\<close>\<close>

text \<open>Every entry of the type-override table is a non-empty string, hence true for \<open>if\<close>.\<close>

lemma FIELD_TYPE_OVERRIDES_nonempty:
  "FIELD_TYPE_OVERRIDES key = Some ov \<Longrightarrow> ov \<noteq> []"
  by (auto simp: FIELD_TYPE_OVERRIDES_def split: if_splits)

text \<open>With an entry in the table the node is not even looked at.\<close>

lemma parse_type_override:
  assumes "FIELD_TYPE_OVERRIDES (class_name, field_name) = Some ov"
  shows "parse_type node_str node class_name field_name = Inr ov"
  using assms FIELD_TYPE_OVERRIDES_nonempty [OF assms]
  by (simp add: parse_type.simps [where node = node])

text \<open>Without an entry the result follows the shape of the node.\<close>

lemma parse_type_no_override:
  assumes "FIELD_TYPE_OVERRIDES (class_name, field_name) = None"
  shows "parse_type node_str (Name n) class_name field_name =
          (if n = ''str'' then Inr ''String''
           else if n = ''bool'' then Inr ''bool''
           else if n = ''int''
             then Inr (dict_get INT_TYPE_OVERRIDES (class_name, field_name) ''u32'')
           else if n = ''float'' then Inr ''f64''
           else Inr n)"
    and "parse_type node_str (Constant CNone) class_name field_name = Inr ''None''"
    and "parse_type node_str (Constant (CStr s)) class_name field_name =
          (if (class_name, field_name) \<in> BOXED_FIELDS
           then Inr (''Option<Box<'' @ s @ ''>>'') else Inr s)"
    and "parse_type node_str (Constant COther) class_name field_name = Inr ''UNKNOWN''"
    and "parse_type node_str OtherExpr class_name field_name = Inr ''UNKNOWN''"
    and "parse_type node_str (Tuple es) class_name field_name = Inr ''UNKNOWN''"
    and "parse_type node_str (Call fn args) class_name field_name = Inr ''UNKNOWN''"
    and "parse_type node_str (BinOp l OtherOp r) class_name field_name = Inr ''UNKNOWN''"
  using assms by (simp_all add: parse_type.simps [where node = "Name n"]
      parse_type.simps [where node = "Constant c" for c]
      parse_type.simps [where node = OtherExpr]
      parse_type.simps [where node = "Tuple es"]
      parse_type.simps [where node = "Call fn args"]
      parse_type.simps [where node = "BinOp l OtherOp r"])

text \<open>
  The union branch. The test \<open>left == "int" and (class_name, field_name) == ("Constant",
  "value")\<close> is dead: that pair has a type override and never gets this far. So is the
  last test, \<open>left == "str" and right == "None"\<close>, which comes after
  \<open>right == "None"\<close> has returned.
\<close>

lemma parse_type_union:
  assumes "FIELD_TYPE_OVERRIDES (class_name, field_name) = None"
  shows "parse_type node_str (BinOp l BitOr r) class_name field_name =
     (case parse_type node_str l class_name field_name of
        Inl e \<Rightarrow> Inl e
      | Inr left \<Rightarrow>
          (case parse_type node_str r class_name field_name of
             Inl e \<Rightarrow> Inl e
           | Inr right \<Rightarrow>
               (if right = ''None'' then
                  (if (class_name, field_name) \<in> BOXED_FIELDS
                   then Inr (''Option<Box<'' @ left @ ''>>'')
                   else Inr (''Option<'' @ left @ ''>''))
                else if left = ''int'' \<and> right = ''float'' then Inr ''ConstantValue''
                else Inr ''UNKNOWN'')))"
proof -
  have ne: "(class_name = ''Constant'' \<and> field_name = ''value'') = False"
    using assms by (auto simp: FIELD_TYPE_OVERRIDES_def)
  show ?thesis
  proof (cases "parse_type node_str l class_name field_name")
    case (Inl e)
    with assms show ?thesis
      by (simp add: parse_type.simps [where node = "BinOp l BitOr r"])
  next
    case left: (Inr left)
    show ?thesis
    proof (cases "parse_type node_str r class_name field_name")
      case (Inl e)
      with assms left show ?thesis
        by (simp add: parse_type.simps [where node = "BinOp l BitOr r"])
    next
      case (Inr right)
      with assms left show ?thesis
        by (simp add: parse_type.simps [where node = "BinOp l BitOr r"] ne)
    qed
  qed
qed

text \<open>The name \<open>int\<close> is rendered as \<open>u32\<close>, \<open>i64\<close> or \<open>u64\<close>, never as \<open>int\<close>.\<close>

lemma int_rendering_is_not_int:
  "dict_get INT_TYPE_OVERRIDES key ''u32'' \<noteq> ''int''"
  by (simp add: dict_get_def INT_TYPE_OVERRIDES_def)

text \<open>
  For a field without a type override the annotation \<open>int | float\<close> comes out as
  \<open>UNKNOWN\<close>: line 76 compares the rendered alternatives (\<open>u32\<close> and \<open>f64\<close>, say)
  with the Python names \<open>int\<close> and \<open>float\<close>, so the branch that returns
  \<open>ConstantValue\<close> is taken only for the two string literals \<open>"int" | "float"\<close>.
\<close>

lemma int_or_float_without_override:
  assumes "FIELD_TYPE_OVERRIDES (class_name, field_name) = None"
  shows "parse_type node_str (BinOp (Name ''int'') BitOr (Name ''float'')) class_name field_name
           = Inr ''UNKNOWN''"
  using assms by (simp add: parse_type_union parse_type_no_override int_rendering_is_not_int)

lemma quoted_int_or_float_without_override:
  assumes "FIELD_TYPE_OVERRIDES (class_name, field_name) = None"
    and "(class_name, field_name) \<notin> BOXED_FIELDS"
  shows "parse_type node_str (BinOp (Constant (CStr ''int'')) BitOr (Constant (CStr ''float'')))
           class_name field_name = Inr ''ConstantValue''"
  using assms by (simp add: parse_type_union parse_type_no_override)

text \<open>
  Claim C1, as amended. Parsing \<open>int | float\<close> is not independent of the override
  tables: for every (record, field) pair that has a type override the result is that
  override's string, whatever it is; it is the synthetic \<open>ConstantValue\<close> union for
  \<open>(Constant, value)\<close>, whose override is \<open>ConstantValue\<close>.
\<close>

theorem int_or_float_follows_type_override:
  "(\<forall>class_name field_name ov.
      FIELD_TYPE_OVERRIDES (class_name, field_name) = Some ov \<longrightarrow>
      parse_type node_str (BinOp (Name ''int'') BitOr (Name ''float'')) class_name field_name = Inr ov)
   \<and> parse_type node_str (BinOp (Name ''int'') BitOr (Name ''float'')) ''Constant'' ''value''
       = Inr ''ConstantValue''"
proof
  show "\<forall>class_name field_name ov.
      FIELD_TYPE_OVERRIDES (class_name, field_name) = Some ov \<longrightarrow>
      parse_type node_str (BinOp (Name ''int'') BitOr (Name ''float'')) class_name field_name = Inr ov"
    by (simp add: parse_type_override)
next
  have "FIELD_TYPE_OVERRIDES (''Constant'', ''value'') = Some ''ConstantValue''"
    by (simp add: FIELD_TYPE_OVERRIDES_def)
  then show "parse_type node_str (BinOp (Name ''int'') BitOr (Name ''float'')) ''Constant'' ''value''
       = Inr ''ConstantValue''"
    by (rule parse_type_override)
qed

theorem int_or_float_follows_type_override_witness:
  "FIELD_TYPE_OVERRIDES (''Param'', ''alias'') = Some ''Option<String>''
   \<and> parse_type sample_str (BinOp (Name ''int'') BitOr (Name ''float'')) ''Param'' ''alias''
       = Inr ''Option<String>''"
proof -
  have h: "FIELD_TYPE_OVERRIDES (''Param'', ''alias'') = Some ''Option<String>''"
    by (simp add: FIELD_TYPE_OVERRIDES_def)
  with int_or_float_follows_type_override show ?thesis
    by blast
qed

text \<open>
  Claim C1 as stated fails: enclosed by \<open>(Flag, aliases)\<close> the annotation \<open>int | float\<close>
  parses to that field's override, not to \<open>ConstantValue\<close>.
\<close>

theorem int_or_float_not_always_constant_value:
  "parse_type sample_str (BinOp (Name ''int'') BitOr (Name ''float'')) ''Flag'' ''aliases''
     = Inr ''Option<Vec<String>>''
   \<and> parse_type sample_str (BinOp (Name ''int'') BitOr (Name ''float'')) ''Flag'' ''aliases''
     \<noteq> Inr ''ConstantValue''"
  by (simp add: parse_type_override FIELD_TYPE_OVERRIDES_def)

text \<open>
  Claim C4. For the boxed pair \<open>(Handle, parent)\<close> and the annotation
  \<open>"Handle" | None\<close> the claim asks for one optional layer around one \<open>Box\<close>. The code
  wraps twice: the string literal is boxed when the left alternative is parsed, and the
  union branch boxes the result again.
\<close>

theorem boxed_forward_ref_union_is_wrapped_twice:
  "parse_type node_str (BinOp (Constant (CStr ''Handle'')) BitOr (Constant CNone)) ''Handle'' ''parent''
     = Inr ''Option<Box<Option<Box<Handle>>>>''"
  by (simp add: parse_type_union parse_type_no_override FIELD_TYPE_OVERRIDES_def
      BOXED_FIELDS_def)

text \<open>
  Claim C5. For every type expression \<open>T\<close> and every (record, field) pair that has no
  type override and is not boxed, \<open>T | None\<close> parses to \<open>Option<\<close>parse of \<open>T\<close>\<open>>\<close>;
  an exception raised while parsing \<open>T\<close> is raised by the union as well. The designated
  pair \<open>(Constant, value)\<close> has a type override, so the first hypothesis excludes it.
\<close>

theorem union_with_none_is_option_of_parse:
  assumes "FIELD_TYPE_OVERRIDES (class_name, field_name) = None"
    and "(class_name, field_name) \<notin> BOXED_FIELDS"
  shows "parse_type node_str (BinOp T BitOr (Constant CNone)) class_name field_name =
     (case parse_type node_str T class_name field_name of
        Inl e \<Rightarrow> Inl e
      | Inr t \<Rightarrow> Inr (''Option<'' @ t @ ''>''))"
  using assms by (simp add: parse_type_union parse_type_no_override split: sum.splits)

theorem union_with_none_is_option_of_parse_witness:
  "FIELD_TYPE_OVERRIDES (''Command'', ''stageMask'') = None
   \<and> (''Command'', ''stageMask'') \<notin> BOXED_FIELDS
   \<and> parse_type sample_str (Name ''int'') ''Command'' ''stageMask'' = Inr ''u32''
   \<and> parse_type sample_str (BinOp (Name ''int'') BitOr (Constant CNone)) ''Command'' ''stageMask''
       = Inr ''Option<u32>''"
proof -
  have h1: "FIELD_TYPE_OVERRIDES (''Command'', ''stageMask'') = None"
    by (simp add: FIELD_TYPE_OVERRIDES_def)
  have h2: "(''Command'', ''stageMask'') \<notin> BOXED_FIELDS"
    by (simp add: BOXED_FIELDS_def)
  have h3: "parse_type sample_str (Name ''int'') ''Command'' ''stageMask'' = Inr ''u32''"
    by (simp add: parse_type_no_override [OF h1] dict_get_def INT_TYPE_OVERRIDES_def)
  show ?thesis
    using h1 h2 h3 union_with_none_is_option_of_parse [where T = "Name ''int''" and node_str = sample_str, OF h1 h2]
    by simp
qed

section \<open>Properties of \<open>generate_rust\<close>\<close>

text \<open>What each loop appends to \<open>lines\<close>.\<close>

lemma enum_loop_lines:
  "enum_loop py lines i vs =
     lines @ map (\<lambda>k. ''    '' @ rust_name py (vs ! k) @ '' = '' @ str_nat (i + k) @ '','')
               [0..<length vs]"
proof (induction vs arbitrary: lines i)
  case Nil
  show ?case by simp
next
  case (Cons v vs)
  have "[0..<length (v # vs)] = 0 # map Suc [0..<length vs]"
    by (simp add: upt_conv_Cons map_Suc_upt del: upt_Suc)
  then show ?case
    by (simp add: Cons.IH comp_def del: upt_Suc)
qed

lemma field_loop_lines:
  "field_loop py lines fields =
     lines @ concat (map (\<lambda>(field_name, rust_type).
        (let emitted = (if field_name \<in> RESERVED_KEYWORDS then field_name @ ''_''
                        else to_snake_case py field_name)
         in (if emitted \<noteq> field_name
             then [''    #[serde(rename = '' @ [CHR 0x22] @ field_name @ [CHR 0x22] @ '')]'']
             else [])
            @ [''    pub '' @ emitted @ '': '' @ rust_type @ '',''])) fields)"
proof (induction fields arbitrary: lines)
  case Nil
  show ?case by simp
next
  case (Cons field fields)
  obtain field_name rust_type where field: "field = (field_name, rust_type)"
    by (cases field)
  show ?case
    unfolding field by (simp add: Cons.IH Let_def)
qed

lemma order_step_constant_value:
  "order_step py dc_map enum_map lines ''ConstantValue'' = lines @ constant_value_block"
  by (simp add: order_step_def)

lemma order_step_enum:
  assumes "name \<noteq> ''ConstantValue''" and "enum_map name = Some vs"
  shows "order_step py dc_map enum_map lines name =
     lines @
     [''#[derive(Clone, Copy, Debug, Deserialize_repr, Eq, PartialEq, Serialize_repr)]'',
      ''#[repr(u8)]'',
      ''pub enum '' @ name @ '' {'']
     @ map (\<lambda>k. ''    '' @ rust_name py (vs ! k) @ '' = '' @ str_nat (k + 1) @ '','')
         [0..<length vs]
     @ [''}'', []]"
  using assms by (simp add: order_step_def Let_def enum_loop_lines)

lemma derives_rendered:
  "join '', '' (if name = ''VideoStd''
               then list_insert 2 ''Default'' [''Clone'', ''Debug'', ''Deserialize'', ''Serialize'']
               else [''Clone'', ''Debug'', ''Deserialize'', ''Serialize''])
   = (if name = ''VideoStd'' then ''Clone, Debug, Default, Deserialize, Serialize''
      else ''Clone, Debug, Deserialize, Serialize'')"
  by (simp add: list_insert_def)

lemma order_step_struct:
  assumes "name \<noteq> ''ConstantValue''" and "enum_map name = None" and "dc_map name = Some fields"
  shows "order_step py dc_map enum_map lines name =
     lines @
     [''#[derive('' @ (if name = ''VideoStd'' then ''Clone, Debug, Default, Deserialize, Serialize''
                       else ''Clone, Debug, Deserialize, Serialize'') @ '')]'',
      ''pub struct '' @ name @ '' {'']
     @ concat (map (\<lambda>(field_name, rust_type).
        (let emitted = (if field_name \<in> RESERVED_KEYWORDS then field_name @ ''_''
                        else to_snake_case py field_name)
         in (if emitted \<noteq> field_name
             then [''    #[serde(rename = '' @ [CHR 0x22] @ field_name @ [CHR 0x22] @ '')]'']
             else [])
            @ [''    pub '' @ emitted @ '': '' @ rust_type @ '',''])) fields)
     @ [''}'', []]"
  using assms
  by (simp add: order_step_def Let_def field_loop_lines list_insert_def)

lemma order_step_skip:
  "name \<noteq> ''ConstantValue'' \<Longrightarrow> enum_map name = None \<Longrightarrow> dc_map name = None \<Longrightarrow>
     order_step py dc_map enum_map lines name = lines"
  by (simp add: order_step_def)

lemma order_step_prefix:
  "order_step py dc_map enum_map lines name = lines @ order_step py dc_map enum_map [] name"
proof (cases "name = ''ConstantValue''")
  case True
  then show ?thesis by (simp add: order_step_constant_value)
next
  case cv: False
  show ?thesis
  proof (cases "enum_map name")
    case (Some vs)
    with cv show ?thesis by (simp add: order_step_enum)
  next
    case en: None
    show ?thesis
    proof (cases "dc_map name")
      case None
      with cv en show ?thesis by (simp add: order_step_skip)
    next
      case (Some fields)
      with cv en show ?thesis by (simp add: order_step_struct)
    qed
  qed
qed

lemma foldl_order_step:
  "foldl (order_step py dc_map enum_map) lines names =
     lines @ concat (map (order_step py dc_map enum_map []) names)"
proof (induction names arbitrary: lines)
  case Nil
  show ?case by simp
next
  case (Cons name names)
  show ?case
    by (simp add: Cons.IH order_step_prefix [of _ _ _ lines name])
qed

lemma order_step_cong:
  "dc_map name = dc_map' name \<Longrightarrow> enum_map name = enum_map' name \<Longrightarrow>
     order_step py dc_map enum_map lines name = order_step py dc_map' enum_map' lines name"
  by (simp add: order_step_def)

lemma dict_of_foldl:
  "foldl (\<lambda>d (k, v). d(k \<mapsto> v)) d pairs = d ++ map_of (rev pairs)"
  by (induction pairs arbitrary: d) (auto simp: map_add_def fun_eq_iff split: option.splits)

lemma dict_of_map_of: "dict_of pairs = map_of (rev pairs)"
  by (simp add: dict_of_def dict_of_foldl)

lemma map_of_filter_key:
  "map_of (filter (\<lambda>(k, v). P k) pairs) key = (if P key then map_of pairs key else None)"
  by (induction pairs) auto

lemma dict_of_filter_key:
  "dict_of (filter (\<lambda>(k, v). P k) pairs) key = (if P key then dict_of pairs key else None)"
  by (simp add: dict_of_map_of rev_filter map_of_filter_key)

lemma concat_map_filter_nonempty:
  "(\<And>x. x \<in> set xs \<Longrightarrow> \<not> P x \<Longrightarrow> f x = []) \<Longrightarrow> concat (map f (filter P xs)) = concat (map f xs)"
  by (induction xs) auto

lemma distinct_order: "distinct order"
  by (simp add: order_def)

text \<open>Evaluation of the string helpers on literals.\<close>

lemma str_nat_digit: "n < 10 \<Longrightarrow> str_nat n = [digit_char n]"
  by (simp add: str_nat.simps)

lemmas char_case_defs = is_lower_def is_upper_def is_cased_def to_lower_def to_upper_def
  ascii_lower_def ascii_upper_def is_ascii_def

lemmas snake_defs = to_snake_case_def lower_def char_case_defs RESERVED_KEYWORDS_def

lemma rust_name_none: "rust_name py ''none'' = ''None''"
  by (simp add: rust_name_def replace_def title_def char_case_defs)

text \<open>The whole output: the preamble, then what each entry of \<open>order\<close> appends.\<close>

lemma generate_lines_blocks:
  "generate_lines py dataclasses enums =
     preamble @ concat (map (order_step py (dict_of dataclasses) (dict_of enums) []) order)"
  by (simp add: generate_lines_def Let_def foldl_order_step)

lemma header_in_block:
  assumes "name = ''ConstantValue'' \<or> enum_map name \<noteq> None \<or> dc_map name \<noteq> None"
  shows "''pub enum '' @ name @ '' {'' \<in> set (order_step py dc_map enum_map [] name)
       \<or> ''pub struct '' @ name @ '' {'' \<in> set (order_step py dc_map enum_map [] name)"
proof (cases "name = ''ConstantValue''")
  case True
  then show ?thesis
    by (simp add: order_step_constant_value constant_value_block_def)
next
  case cv: False
  show ?thesis
  proof (cases "enum_map name")
    case (Some vs)
    with cv show ?thesis by (simp add: order_step_enum)
  next
    case en: None
    with cv assms obtain fields where "dc_map name = Some fields" by auto
    with cv en show ?thesis by (simp add: order_step_struct)
  qed
qed

lemma generate_lines_cong:
  assumes "\<And>name. name \<in> set order \<Longrightarrow> dict_of dataclasses' name = dict_of dataclasses name"
    and "\<And>name. name \<in> set order \<Longrightarrow> dict_of enums' name = dict_of enums name"
  shows "generate_lines py dataclasses' enums' = generate_lines py dataclasses enums"
proof -
  have "map (order_step py (dict_of dataclasses') (dict_of enums') []) order
      = map (order_step py (dict_of dataclasses) (dict_of enums) []) order"
  proof (rule map_cong [OF refl])
    fix name assume "name \<in> set order"
    then show "order_step py (dict_of dataclasses') (dict_of enums') [] name
             = order_step py (dict_of dataclasses) (dict_of enums) [] name"
      by (intro order_step_cong assms)
  qed
  then show ?thesis
    by (simp only: generate_lines_blocks)
qed

text \<open>The block of an entry of \<open>order\<close> sits in the text between those of its neighbours.\<close>

lemma generate_rust_around:
  assumes "name \<in> set order"
  shows "\<exists>earlier later. order = earlier @ name # later
      \<and> generate_rust py dataclasses enums = join [CHR 0x0A]
          (preamble
           @ concat (map (order_step py (dict_of dataclasses) (dict_of enums) []) earlier)
           @ order_step py (dict_of dataclasses) (dict_of enums) [] name
           @ concat (map (order_step py (dict_of dataclasses) (dict_of enums) []) later))"
proof -
  from assms obtain earlier later where o: "order = earlier @ name # later"
    by (auto simp: in_set_conv_decomp)
  have "generate_lines py dataclasses enums =
          preamble
           @ concat (map (order_step py (dict_of dataclasses) (dict_of enums) []) earlier)
           @ order_step py (dict_of dataclasses) (dict_of enums) [] name
           @ concat (map (order_step py (dict_of dataclasses) (dict_of enums) []) later)"
    unfolding generate_lines_blocks o by simp
  then have g: "generate_rust py dataclasses enums = join [CHR 0x0A]
          (preamble
           @ concat (map (order_step py (dict_of dataclasses) (dict_of enums) []) earlier)
           @ order_step py (dict_of dataclasses) (dict_of enums) [] name
           @ concat (map (order_step py (dict_of dataclasses) (dict_of enums) []) later))"
    by (simp only: generate_rust_def)
  show ?thesis
    by (rule exI [of _ earlier], rule exI [of _ later]) (rule conjI [OF o g])
qed

text \<open>
  Claim C6. Let \<open>name\<close> be an entry of the declaration order other than
  \<open>ConstantValue\<close> and let \<open>vs\<close> be the variants of the extracted enum of that name.
  Then the written text holds, after the blocks of the earlier entries and before those
  of the later ones, the block of the enum: the two attribute lines, the header, one
  line per variant and the closing lines. The line of the variant at position \<open>k\<close>
  (counted from 0) carries the ordinal \<open>k + 1\<close>, so the ordinals are 1 to \<open>length vs\<close>
  in declared order. The variant \<open>none\<close> gets the identifier \<open>None\<close>.
\<close>

theorem enum_ordinals_follow_declared_order:
  assumes "name \<in> set order" and "name \<noteq> ''ConstantValue''"
    and "dict_of enums name = Some vs"
  shows "(\<exists>earlier later. order = earlier @ name # later
      \<and> generate_rust py dataclasses enums = join [CHR 0x0A]
          (preamble
           @ concat (map (order_step py (dict_of dataclasses) (dict_of enums) []) earlier)
           @ [''#[derive(Clone, Copy, Debug, Deserialize_repr, Eq, PartialEq, Serialize_repr)]'',
              ''#[repr(u8)]'',
              ''pub enum '' @ name @ '' {'']
           @ map (\<lambda>k. ''    '' @ rust_name py (vs ! k) @ '' = '' @ str_nat (k + 1) @ '','')
               [0..<length vs]
           @ [''}'', []]
           @ concat (map (order_step py (dict_of dataclasses) (dict_of enums) []) later)))
    \<and> rust_name py ''none'' = ''None''"
proof -
  have "order_step py (dict_of dataclasses) (dict_of enums) [] name =
     [''#[derive(Clone, Copy, Debug, Deserialize_repr, Eq, PartialEq, Serialize_repr)]'',
      ''#[repr(u8)]'',
      ''pub enum '' @ name @ '' {'']
     @ map (\<lambda>k. ''    '' @ rust_name py (vs ! k) @ '' = '' @ str_nat (k + 1) @ '','')
         [0..<length vs]
     @ [''}'', []]"
    using assms(2,3)
    by (simp add: order_step_enum [where enum_map = "dict_of enums" and vs = vs])
  with generate_rust_around [OF assms(1), of py dataclasses enums] show ?thesis
    by (simp add: rust_name_none)
qed

theorem enum_ordinals_follow_declared_order_witness:
  "''SyncStage'' \<in> set order \<and> ''SyncStage'' \<noteq> ''ConstantValue''
   \<and> dict_of [(''SyncStage'', [''color'', ''depth_stencil'', ''none''])] ''SyncStage''
        = Some [''color'', ''depth_stencil'', ''none'']
   \<and> (\<exists>earlier later. order = earlier @ ''SyncStage'' # later
      \<and> generate_rust sample_py [] [(''SyncStage'', [''color'', ''depth_stencil'', ''none''])]
        = join [CHR 0x0A]
          (preamble
           @ concat (map (order_step sample_py (dict_of [])
                (dict_of [(''SyncStage'', [''color'', ''depth_stencil'', ''none''])]) []) earlier)
           @ [''#[derive(Clone, Copy, Debug, Deserialize_repr, Eq, PartialEq, Serialize_repr)]'',
              ''#[repr(u8)]'',
              ''pub enum SyncStage {'',
              ''    Color = 1,'',
              ''    DepthStencil = 2,'',
              ''    None = 3,'',
              ''}'',
              []]
           @ concat (map (order_step sample_py (dict_of [])
                (dict_of [(''SyncStage'', [''color'', ''depth_stencil'', ''none''])]) []) later)))"
proof -
  have h1: "''SyncStage'' \<in> set order" by (simp add: order_def)
  have h2: "''SyncStage'' \<noteq> ''ConstantValue''" by simp
  have h3: "dict_of [(''SyncStage'', [''color'', ''depth_stencil'', ''none''])] ''SyncStage''
        = Some [''color'', ''depth_stencil'', ''none'']"
    by (simp add: dict_of_def)
  have u: "[0..<length [''color'', ''depth_stencil'', ''none'']] = [0, 1, 2]"
    by (simp add: upt_rec)
  show ?thesis
    using h1 h2 h3 enum_ordinals_follow_declared_order [where py = sample_py and dataclasses = "[]", OF h1 h2 h3]
    by (simp add: u rust_name_def replace_def title_def char_case_defs str_nat_digit
        digit_char_def)
qed

text \<open>
  Claim C7. Let \<open>name\<close> be an entry of the declaration order that names an
  extracted record with the fields \<open>fields\<close> and no extracted enum. Then the written
  text holds the block of the record, in which every field contributes, in declared
  order, its \<open>pub\<close> line, preceded by a rename line exactly when the emitted identifier
  (the declared name with \<open>_\<close> appended if it is reserved, its snake-case form
  otherwise) differs from the declared name; the rename line quotes the declared name.
\<close>

theorem rename_iff_identifier_differs:
  assumes "name \<in> set order" and "name \<noteq> ''ConstantValue''"
    and "dict_of enums name = None" and "dict_of dataclasses name = Some fields"
  shows "\<exists>earlier later. order = earlier @ name # later
      \<and> generate_rust py dataclasses enums = join [CHR 0x0A]
          (preamble
           @ concat (map (order_step py (dict_of dataclasses) (dict_of enums) []) earlier)
           @ [''#[derive('' @ (if name = ''VideoStd''
                               then ''Clone, Debug, Default, Deserialize, Serialize''
                               else ''Clone, Debug, Deserialize, Serialize'') @ '')]'',
              ''pub struct '' @ name @ '' {'']
           @ concat (map (\<lambda>(field_name, rust_type).
               (let emitted = (if field_name \<in> RESERVED_KEYWORDS then field_name @ ''_''
                               else to_snake_case py field_name)
                in (if emitted \<noteq> field_name
                    then [''    #[serde(rename = '' @ [CHR 0x22] @ field_name @ [CHR 0x22] @ '')]'']
                    else [])
                   @ [''    pub '' @ emitted @ '': '' @ rust_type @ '',''])) fields)
           @ [''}'', []]
           @ concat (map (order_step py (dict_of dataclasses) (dict_of enums) []) later))"
proof -
  have "order_step py (dict_of dataclasses) (dict_of enums) [] name =
     [''#[derive('' @ (if name = ''VideoStd''
                               then ''Clone, Debug, Default, Deserialize, Serialize''
                               else ''Clone, Debug, Deserialize, Serialize'') @ '')]'',
              ''pub struct '' @ name @ '' {'']
           @ concat (map (\<lambda>(field_name, rust_type).
               (let emitted = (if field_name \<in> RESERVED_KEYWORDS then field_name @ ''_''
                               else to_snake_case py field_name)
                in (if emitted \<noteq> field_name
                    then [''    #[serde(rename = '' @ [CHR 0x22] @ field_name @ [CHR 0x22] @ '')]'']
                    else [])
                   @ [''    pub '' @ emitted @ '': '' @ rust_type @ '',''])) fields)
           @ [''}'', []]"
    using order_step_struct [where dc_map = "dict_of dataclasses" and enum_map = "dict_of enums"
        and fields = fields and lines = "[]" and py = py, OF assms(2,3,4)]
    by simp
  with generate_rust_around [OF assms(1), of py dataclasses enums] show ?thesis
    by simp
qed

theorem rename_iff_identifier_differs_witness:
  "''Command'' \<in> set order \<and> ''Command'' \<noteq> ''ConstantValue''
   \<and> dict_of ([] :: enum_spec list) ''Command'' = None
   \<and> dict_of [(''Command'',
          [(''stageMask'', ''Option<u32>''), (''type'', ''String''), (''name'', ''String'')])]
        ''Command''
        = Some [(''stageMask'', ''Option<u32>''), (''type'', ''String''), (''name'', ''String'')]
   \<and> (\<exists>earlier later. order = earlier @ ''Command'' # later
      \<and> generate_rust sample_py
          [(''Command'',
            [(''stageMask'', ''Option<u32>''), (''type'', ''String''), (''name'', ''String'')])] []
        = join [CHR 0x0A]
          (preamble
           @ concat (map (order_step sample_py
                (dict_of [(''Command'',
                  [(''stageMask'', ''Option<u32>''), (''type'', ''String''),
                   (''name'', ''String'')])])
                (dict_of []) []) earlier)
           @ [''#[derive(Clone, Debug, Deserialize, Serialize)]'',
              ''pub struct Command {'',
              ''    #[serde(rename = '' @ [CHR 0x22] @ ''stageMask'' @ [CHR 0x22] @ '')]'',
              ''    pub stage_mask: Option<u32>,'',
              ''    #[serde(rename = '' @ [CHR 0x22] @ ''type'' @ [CHR 0x22] @ '')]'',
              ''    pub type_: String,'',
              ''    pub name: String,'',
              ''}'',
              []]
           @ concat (map (order_step sample_py
                (dict_of [(''Command'',
                  [(''stageMask'', ''Option<u32>''), (''type'', ''String''),
                   (''name'', ''String'')])])
                (dict_of []) []) later)))"
proof -
  have h1: "''Command'' \<in> set order" by (simp add: order_def)
  have h2: "''Command'' \<noteq> ''ConstantValue''" by simp
  have h3: "dict_of ([] :: enum_spec list) ''Command'' = None"
    by (simp add: dict_of_def)
  have h4: "dict_of [(''Command'',
          [(''stageMask'', ''Option<u32>''), (''type'', ''String''), (''name'', ''String'')])]
        ''Command''
        = Some [(''stageMask'', ''Option<u32>''), (''type'', ''String''), (''name'', ''String'')]"
    by (simp add: dict_of_def)
  show ?thesis
    using h1 h2 h3 h4 rename_iff_identifier_differs [where py = sample_py, OF h1 h2 h3 h4]
    by (simp add: snake_defs)
qed

text \<open>
  A declared name beyond ASCII: \<open>str.lower()\<close> turns the capital A with diaeresis
  (bytes C3 84) into the small one (bytes C3 A4), the identifier differs from the
  declared name, and the rename line is there.
\<close>

lemma non_ascii_name_is_renamed:
  assumes "str_lower py [CHR 0xC3, CHR 0x84, CHR ''b''] = [CHR 0xC3, CHR 0xA4, CHR ''b'']"
  shows "field_loop py [] [([CHR 0xC3, CHR 0x84, CHR ''b''], ''String'')] =
     [''    #[serde(rename = '' @ [CHR 0x22] @ [CHR 0xC3, CHR 0x84, CHR ''b''] @ [CHR 0x22] @ '')]'',
      ''    pub '' @ [CHR 0xC3, CHR 0xA4, CHR ''b''] @ '': String,'']"
  using assms by (simp add: snake_defs)


text \<open>
  Claim C8. Let \<open>emitted\<close> be the entries of the declaration order that are
  \<open>ConstantValue\<close> or name an extracted enum or record. The output is the preamble
  followed by one block per entry of \<open>emitted\<close>, in that sequence; no entry occurs
  twice, and the block of an entry holds the header of the declaration it names.
  Records and enums whose names are not in the declaration order leave no trace:
  dropping them from the extracted collections gives the same output.
\<close>

theorem blocks_follow_declaration_order:
  "(let dc_map = dict_of dataclasses;
        enum_map = dict_of enums;
        emitted = filter (\<lambda>name. name = ''ConstantValue'' \<or> enum_map name \<noteq> None
                                  \<or> dc_map name \<noteq> None) order
    in generate_rust py dataclasses enums
         = join [CHR 0x0A] (preamble @ concat (map (order_step py dc_map enum_map []) emitted))
     \<and> distinct emitted
     \<and> (\<forall>name \<in> set emitted.
           ''pub enum '' @ name @ '' {'' \<in> set (order_step py dc_map enum_map [] name)
         \<or> ''pub struct '' @ name @ '' {'' \<in> set (order_step py dc_map enum_map [] name))
     \<and> generate_rust py (filter (\<lambda>(name, fields). name \<in> set order) dataclasses)
                      (filter (\<lambda>(name, vs). name \<in> set order) enums)
         = generate_rust py dataclasses enums)"
proof -
  define dc_map where "dc_map = dict_of dataclasses"
  define enum_map where "enum_map = dict_of enums"
  define present where "present = (\<lambda>name. name = ''ConstantValue'' \<or> enum_map name \<noteq> None
                                  \<or> dc_map name \<noteq> None)"
  have skip: "order_step py dc_map enum_map [] name = []" if "\<not> present name" for name
    using that by (simp add: present_def order_step_skip)
  have "concat (map (order_step py dc_map enum_map []) (filter present order))
      = concat (map (order_step py dc_map enum_map []) order)"
    by (rule concat_map_filter_nonempty) (rule skip)
  then have a: "generate_rust py dataclasses enums
         = join [CHR 0x0A] (preamble @ concat (map (order_step py dc_map enum_map []) (filter present order)))"
    by (simp add: generate_rust_def generate_lines_blocks dc_map_def enum_map_def)
  have b: "distinct (filter present order)"
    by (simp add: distinct_order)
  have c: "\<forall>name \<in> set (filter present order).
           ''pub enum '' @ name @ '' {'' \<in> set (order_step py dc_map enum_map [] name)
         \<or> ''pub struct '' @ name @ '' {'' \<in> set (order_step py dc_map enum_map [] name)"
  proof
    fix name assume "name \<in> set (filter present order)"
    then have "name = ''ConstantValue'' \<or> enum_map name \<noteq> None \<or> dc_map name \<noteq> None"
      by (simp add: present_def)
    then show "''pub enum '' @ name @ '' {'' \<in> set (order_step py dc_map enum_map [] name)
         \<or> ''pub struct '' @ name @ '' {'' \<in> set (order_step py dc_map enum_map [] name)"
      by (rule header_in_block)
  qed
  have "generate_lines py (filter (\<lambda>(name, fields). name \<in> set order) dataclasses)
                      (filter (\<lambda>(name, vs). name \<in> set order) enums)
         = generate_lines py dataclasses enums"
    by (rule generate_lines_cong) (simp_all add: dict_of_filter_key)
  then have d: "generate_rust py (filter (\<lambda>(name, fields). name \<in> set order) dataclasses)
                      (filter (\<lambda>(name, vs). name \<in> set order) enums)
         = generate_rust py dataclasses enums"
    by (simp add: generate_rust_def)
  from a b c d show ?thesis
    unfolding Let_def dc_map_def enum_map_def present_def by (intro conjI)
qed

theorem blocks_follow_declaration_order_witness:
  "filter (\<lambda>name. name = ''ConstantValue''
             \<or> dict_of [(''SyncStage'', [''top''])] name \<noteq> None
             \<or> dict_of [(''Version'', [(''major'', ''u32'')]), (''Hidden'', [(''x'', ''u32'')])] name
                 \<noteq> None) order
     = [''Version'', ''ConstantValue'', ''SyncStage'']
   \<and> ''pub struct Version {''
       \<in> set (order_step sample_py
                (dict_of [(''Version'', [(''major'', ''u32'')]), (''Hidden'', [(''x'', ''u32'')])])
                (dict_of [(''SyncStage'', [''top''])]) [] ''Version'')
   \<and> generate_rust sample_py [(''Version'', [(''major'', ''u32'')])] [(''SyncStage'', [''top''])]
       = generate_rust sample_py [(''Version'', [(''major'', ''u32'')]), (''Hidden'', [(''x'', ''u32'')])]
           [(''SyncStage'', [''top''])]"
proof -
  let ?D = "[(''Version'', [(''major'', ''u32'')]), (''Hidden'', [(''x'', ''u32'')])]"
  let ?E = "[(''SyncStage'', [''top''])]"
  have emitted: "filter (\<lambda>name. name = ''ConstantValue'' \<or> dict_of ?E name \<noteq> None
             \<or> dict_of ?D name \<noteq> None) order
     = [''Version'', ''ConstantValue'', ''SyncStage'']"
    by (simp add: order_def dict_of_def)
  have fd: "filter (\<lambda>(name, fields). name \<in> set order) ?D = [(''Version'', [(''major'', ''u32'')])]"
    by (simp add: order_def)
  have fe: "filter (\<lambda>(name, vs). name \<in> set order) ?E = ?E"
    by (simp add: order_def)
  have no_enum: "''pub enum Version {''
       \<notin> set (order_step sample_py (dict_of ?D) (dict_of ?E) [] ''Version'')"
    by (simp add: order_step_struct [where fields = "[(''major'', ''u32'')]"] dict_of_def
        snake_defs)
  from blocks_follow_declaration_order [where py = sample_py and dataclasses = ?D and enums = ?E]
  have "(\<forall>name \<in> set [''Version'', ''ConstantValue'', ''SyncStage''].
           ''pub enum '' @ name @ '' {'' \<in> set (order_step sample_py (dict_of ?D) (dict_of ?E) [] name)
         \<or> ''pub struct '' @ name @ '' {'' \<in> set (order_step sample_py (dict_of ?D) (dict_of ?E) [] name))"
    and eq: "generate_rust sample_py [(''Version'', [(''major'', ''u32'')])] ?E = generate_rust sample_py ?D ?E"
    unfolding Let_def emitted fd fe by blast+
  then have "''pub enum '' @ ''Version'' @ '' {'' \<in> set (order_step sample_py (dict_of ?D) (dict_of ?E) [] ''Version'')
         \<or> ''pub struct '' @ ''Version'' @ '' {'' \<in> set (order_step sample_py (dict_of ?D) (dict_of ?E) [] ''Version'')"
    by simp
  with no_enum have "''pub struct Version {''
       \<in> set (order_step sample_py (dict_of ?D) (dict_of ?E) [] ''Version'')"
    by simp
  with emitted eq show ?thesis
    by blast
qed

text \<open>
  Claim C3, as amended. An entry of the declaration order that is not
  \<open>ConstantValue\<close> and names neither an extracted enum nor an extracted record is
  skipped without any error: the loop over the order gives the same lines as it gives
  with that entry removed.
\<close>

theorem absent_order_entry_is_skipped:
  assumes "name \<noteq> ''ConstantValue''" and "enum_map name = None" and "dc_map name = None"
  shows "foldl (order_step py dc_map enum_map) lines (before @ name # after)
           = foldl (order_step py dc_map enum_map) lines (before @ after)"
  using assms by (simp add: order_step_skip)

theorem absent_order_entry_is_skipped_witness:
  "''FeatureRequirement'' \<noteq> ''ConstantValue''
   \<and> Map.empty ''FeatureRequirement'' = (None :: string list option)
   \<and> Map.empty ''FeatureRequirement'' = (None :: field_spec list option)
   \<and> foldl (order_step sample_py Map.empty Map.empty) preamble
         ([] @ ''FeatureRequirement'' # [''ConstantValue''])
       = preamble @ constant_value_block"
proof -
  have h1: "''FeatureRequirement'' \<noteq> ''ConstantValue''" by simp
  have h2: "Map.empty ''FeatureRequirement'' = (None :: string list option)" by simp
  have h3: "Map.empty ''FeatureRequirement'' = (None :: field_spec list option)" by simp
  show ?thesis
    using absent_order_entry_is_skipped [where py = sample_py and name = "''FeatureRequirement''" and enum_map = Map.empty
        and dc_map = Map.empty and lines = preamble and before = "[]"
        and after = "[''ConstantValue'']", OF h1 h2 h3]
    by (simp add: order_step_constant_value)
qed

lemma generate_lines_nothing_extracted:
  "generate_lines py [] [] = preamble @ constant_value_block"
  by (simp add: generate_lines_blocks dict_of_def order_def order_step_skip
      order_step_constant_value)

text \<open>
  Claim C3 as stated fails: for the empty module nothing is extracted, the order entry
  \<open>FeatureRequirement\<close> (like every entry but \<open>ConstantValue\<close>) is in neither
  collection, and the run still writes its output.
\<close>

theorem absent_order_entry_does_not_stop_the_run:
  "''FeatureRequirement'' \<in> set order
   \<and> extract_classes sample_str [] = Inr ([], [])
   \<and> main sample_str sample_py [] = Inr (join [CHR 0x0A]
       [''use indexmap::IndexMap;'',
        ''use serde::{Deserialize, Serialize};'',
        ''use serde_repr::{Deserialize_repr, Serialize_repr};'',
        [],
        ''#[derive(Clone, Debug, Deserialize, Serialize)]'',
        ''#[serde(untagged)]'',
        ''pub enum ConstantValue {'',
        ''    Int(u64),'',
        ''    Float(f64),'',
        ''}'',
        []])"
proof -
  have a: "''FeatureRequirement'' \<in> set order" by (simp add: order_def)
  have b: "extract_classes sample_str [] = Inr ([], [])" by (simp add: extract_classes_def)
  have c: "main sample_str sample_py [] = Inr (join [CHR 0x0A] (preamble @ constant_value_block))"
    by (simp add: main_def b generate_rust_def generate_lines_nothing_extracted)
  from a b c show ?thesis
    by (simp add: preamble_def constant_value_block_def)
qed

section \<open>Properties of \<open>extract_classes\<close> and \<open>main\<close>\<close>

text \<open>A line of the list is a piece of the joined text.\<close>

lemma join_contains:
  "l \<in> set ls \<Longrightarrow> \<exists>before after. join sep ls = before @ l @ after"
proof (induction sep ls rule: join.induct)
  case (1 sep)
  then show ?case by simp
next
  case (2 sep x)
  then have "join sep [x] = [] @ l @ []" by simp
  then show ?case by blast
next
  case (3 sep x y ys)
  show ?case
  proof (cases "l = x")
    case True
    then have "join sep (x # y # ys) = [] @ l @ (sep @ join sep (y # ys))" by simp
    then show ?thesis by blast
  next
    case False
    with 3 obtain before after where "join sep (y # ys) = before @ l @ after" by auto
    then have "join sep (x # y # ys) = (x @ sep @ before) @ l @ after" by simp
    then show ?thesis by blast
  qed
qed

text \<open>The type text \<open>UNKNOWN\<close> is rendered like any other.\<close>

lemma unknown_field_line:
  assumes "name \<in> set order" and "name \<noteq> ''ConstantValue''"
    and "dict_of enums name = None" and "dict_of dataclasses name = Some fs"
    and "(f, ''UNKNOWN'') \<in> set fs"
  shows "''    pub '' @ (if f \<in> RESERVED_KEYWORDS then f @ ''_'' else to_snake_case py f)
           @ '': UNKNOWN,'' \<in> set (generate_lines py dataclasses enums)"
proof -
  let ?line = "''    pub '' @ (if f \<in> RESERVED_KEYWORDS then f @ ''_'' else to_snake_case py f)
           @ '': UNKNOWN,''"
  let ?field_lines = "\<lambda>(field_name, rust_type).
        (let emitted = (if field_name \<in> RESERVED_KEYWORDS then field_name @ ''_''
                        else to_snake_case py field_name)
         in (if emitted \<noteq> field_name
             then [''    #[serde(rename = '' @ [CHR 0x22] @ field_name @ [CHR 0x22] @ '')]'']
             else [])
            @ [''    pub '' @ emitted @ '': '' @ rust_type @ '',''])"
  have "?line \<in> set (?field_lines (f, ''UNKNOWN''))"
    by (simp add: Let_def)
  with assms(5) have "?line \<in> set (concat (map ?field_lines fs))"
    unfolding set_concat set_map by blast
  then have "?line \<in> set (order_step py (dict_of dataclasses) (dict_of enums) [] name)"
    by (simp add: order_step_struct [where dc_map = "dict_of dataclasses"
          and enum_map = "dict_of enums" and fields = fs, OF assms(2,3,4)])
  with assms(1) have
    "?line \<in> set (concat (map (order_step py (dict_of dataclasses) (dict_of enums) []) order))"
    unfolding set_concat set_map by blast
  then show ?thesis
    by (simp add: generate_lines_blocks)
qed

text \<open>
  Claim C2, as amended. A field whose annotation parses to \<open>UNKNOWN\<close> does not stop
  the run. The field loop stores it with the type text \<open>UNKNOWN\<close> and goes on;
  whenever extraction returns, \<open>main\<close> writes the generated text; and for a record
  that is emitted, that text contains the field's line with \<open>UNKNOWN\<close> as its type.
\<close>

theorem unknown_is_stored_and_rendered:
  "(parse_type node_str annotation class_name field_name = Inr ''UNKNOWN'' \<longrightarrow>
      fields_loop node_str class_name fields (AnnAssign (Name field_name) annotation # body)
        = fields_loop node_str class_name (fields @ [(field_name, ''UNKNOWN'')]) body)
   \<and> (extract_classes node_str tree = Inr (dataclasses, enums) \<longrightarrow>
        main node_str py tree = Inr (generate_rust py dataclasses enums))
   \<and> (name \<in> set order \<and> name \<noteq> ''ConstantValue'' \<and> dict_of enums name = None
        \<and> dict_of dataclasses name = Some fs \<and> (f, ''UNKNOWN'') \<in> set fs \<longrightarrow>
        (\<exists>before after. generate_rust py dataclasses enums =
           before @ ''    pub '' @ (if f \<in> RESERVED_KEYWORDS then f @ ''_'' else to_snake_case py f)
             @ '': UNKNOWN,'' @ after))"
proof (intro conjI impI)
  assume "parse_type node_str annotation class_name field_name = Inr ''UNKNOWN''"
  then show "fields_loop node_str class_name fields (AnnAssign (Name field_name) annotation # body)
        = fields_loop node_str class_name (fields @ [(field_name, ''UNKNOWN'')]) body"
    by simp
next
  assume "extract_classes node_str tree = Inr (dataclasses, enums)"
  then show "main node_str py tree = Inr (generate_rust py dataclasses enums)"
    by (simp add: main_def)
next
  assume h: "name \<in> set order \<and> name \<noteq> ''ConstantValue'' \<and> dict_of enums name = None
        \<and> dict_of dataclasses name = Some fs \<and> (f, ''UNKNOWN'') \<in> set fs"
  then have h1: "name \<in> set order" and h2: "name \<noteq> ''ConstantValue''"
    and h3: "dict_of enums name = None" and h4: "dict_of dataclasses name = Some fs"
    and h5: "(f, ''UNKNOWN'') \<in> set fs"
    by simp_all
  have "''    pub '' @ (if f \<in> RESERVED_KEYWORDS then f @ ''_'' else to_snake_case py f)
           @ '': UNKNOWN,'' \<in> set (generate_lines py dataclasses enums)"
    by (rule unknown_field_line [OF h1 h2 h3 h4 h5])
  from join_contains [OF this, of "[CHR 0x0A]"]
  show "\<exists>before after. generate_rust py dataclasses enums =
           before @ ''    pub '' @ (if f \<in> RESERVED_KEYWORDS then f @ ''_'' else to_snake_case py f)
             @ '': UNKNOWN,'' @ after"
    by (simp add: generate_rust_def)
qed

text \<open>Evaluation of a module with one record whose only field is annotated \<open>set[str]\<close>.\<close>

lemma parse_type_set_of_str:
  "parse_type node_str (Subscript (Name ''set'') (Name ''str'')) ''Version'' ''x'' = Inr ''UNKNOWN''"
  by (simp add: parse_type.simps [where node = "Subscript (Name ''set'') (Name ''str'')"]
      FIELD_TYPE_OVERRIDES_def)

lemma extract_version:
  "extract_classes node_str
     [ClassDef ''Version'' [] [Name ''dataclass'']
        [AnnAssign (Name ''x'') (Subscript (Name ''set'') (Name ''str''))]]
   = Inr ([(''Version'', [(''x'', ''UNKNOWN'')])], [])"
  by (simp add: extract_classes_def is_dataclass_decorator_def is_enum_base_def
      parse_type_set_of_str)

lemma generate_lines_version:
  "generate_lines py [(''Version'', [(''x'', ''UNKNOWN'')])] [] =
       [''use indexmap::IndexMap;'',
        ''use serde::{Deserialize, Serialize};'',
        ''use serde_repr::{Deserialize_repr, Serialize_repr};'',
        [],
        ''#[derive(Clone, Debug, Deserialize, Serialize)]'',
        ''pub struct Version {'',
        ''    pub x: UNKNOWN,'',
        ''}'',
        [],
        ''#[derive(Clone, Debug, Deserialize, Serialize)]'',
        ''#[serde(untagged)]'',
        ''pub enum ConstantValue {'',
        ''    Int(u64),'',
        ''    Float(f64),'',
        ''}'',
        []]"
proof -
  have v: "order_step py (dict_of [(''Version'', [(''x'', ''UNKNOWN'')])]) (dict_of []) [] ''Version''
     = [''#[derive(Clone, Debug, Deserialize, Serialize)]'',
        ''pub struct Version {'',
        ''    pub x: UNKNOWN,'',
        ''}'',
        []]"
    by (simp add: order_step_struct [where fields = "[(''x'', ''UNKNOWN'')]"] dict_of_def
        snake_defs)
  have s: "name \<noteq> ''Version'' \<Longrightarrow> name \<noteq> ''ConstantValue'' \<Longrightarrow>
      order_step py (dict_of [(''Version'', [(''x'', ''UNKNOWN'')])]) (dict_of []) [] name = []" for name
    by (simp add: order_step_skip dict_of_def)
  show ?thesis
    by (simp add: generate_lines_blocks order_def v s order_step_constant_value
        preamble_def constant_value_block_def)
qed

theorem unknown_is_stored_and_rendered_witness:
  "parse_type sample_str (Subscript (Name ''set'') (Name ''str'')) ''Version'' ''x'' = Inr ''UNKNOWN''
   \<and> fields_loop sample_str ''Version'' []
        [AnnAssign (Name ''x'') (Subscript (Name ''set'') (Name ''str''))]
       = Inr [(''x'', ''UNKNOWN'')]
   \<and> extract_classes sample_str
        [ClassDef ''Version'' [] [Name ''dataclass'']
           [AnnAssign (Name ''x'') (Subscript (Name ''set'') (Name ''str''))]]
       = Inr ([(''Version'', [(''x'', ''UNKNOWN'')])], [])
   \<and> main sample_str sample_py [ClassDef ''Version'' [] [Name ''dataclass'']
           [AnnAssign (Name ''x'') (Subscript (Name ''set'') (Name ''str''))]]
       = Inr (generate_rust sample_py [(''Version'', [(''x'', ''UNKNOWN'')])] [])
   \<and> ''Version'' \<in> set order \<and> ''Version'' \<noteq> ''ConstantValue''
   \<and> dict_of ([] :: enum_spec list) ''Version'' = None
   \<and> dict_of [(''Version'', [(''x'', ''UNKNOWN'')])] ''Version'' = Some [(''x'', ''UNKNOWN'')]
   \<and> (''x'', ''UNKNOWN'') \<in> set [(''x'', ''UNKNOWN'')]
   \<and> (\<exists>before after. generate_rust sample_py [(''Version'', [(''x'', ''UNKNOWN'')])] []
          = before @ ''    pub x: UNKNOWN,'' @ after)"
proof -
  have h1: "parse_type sample_str (Subscript (Name ''set'') (Name ''str'')) ''Version'' ''x''
              = Inr ''UNKNOWN''"
    by (rule parse_type_set_of_str)
  have h2: "extract_classes sample_str
        [ClassDef ''Version'' [] [Name ''dataclass'']
           [AnnAssign (Name ''x'') (Subscript (Name ''set'') (Name ''str''))]]
       = Inr ([(''Version'', [(''x'', ''UNKNOWN'')])], [])"
    by (rule extract_version)
  have h3: "''Version'' \<in> set order \<and> ''Version'' \<noteq> ''ConstantValue''
     \<and> dict_of ([] :: enum_spec list) ''Version'' = None
     \<and> dict_of [(''Version'', [(''x'', ''UNKNOWN'')])] ''Version'' = Some [(''x'', ''UNKNOWN'')]
     \<and> (''x'', ''UNKNOWN'') \<in> set [(''x'', ''UNKNOWN'')]"
    by (simp add: order_def dict_of_def)
  have x: "(if ''x'' \<in> RESERVED_KEYWORDS then ''x'' @ ''_'' else to_snake_case sample_py ''x'') = ''x''"
    by (simp add: snake_defs)
  show ?thesis
    using h1 h2 h3
      unknown_is_stored_and_rendered [where py = sample_py and node_str = sample_str
        and annotation = "Subscript (Name ''set'') (Name ''str'')"
        and class_name = "''Version''" and field_name = "''x''" and fields = "[]" and body = "[]"
        and tree = "[ClassDef ''Version'' [] [Name ''dataclass'']
           [AnnAssign (Name ''x'') (Subscript (Name ''set'') (Name ''str''))]]"
        and dataclasses = "[(''Version'', [(''x'', ''UNKNOWN'')])]" and enums = "[]"
        and name = "''Version''" and fs = "[(''x'', ''UNKNOWN'')]" and f = "''x''"]
    by (simp add: x)
qed

text \<open>
  Claim C2 as stated fails: the annotation \<open>set[str]\<close> parses to \<open>UNKNOWN\<close>, the
  run does not abort, and the text it writes has the line \<open>pub x: UNKNOWN,\<close>.
\<close>

theorem unknown_type_reaches_the_output:
  "parse_type sample_str (Subscript (Name ''set'') (Name ''str'')) ''Version'' ''x'' = Inr ''UNKNOWN''
   \<and> main sample_str sample_py [ClassDef ''Version'' [] [Name ''dataclass'']
              [AnnAssign (Name ''x'') (Subscript (Name ''set'') (Name ''str''))]]
     = Inr (join [CHR 0x0A]
       [''use indexmap::IndexMap;'',
        ''use serde::{Deserialize, Serialize};'',
        ''use serde_repr::{Deserialize_repr, Serialize_repr};'',
        [],
        ''#[derive(Clone, Debug, Deserialize, Serialize)]'',
        ''pub struct Version {'',
        ''    pub x: UNKNOWN,'',
        ''}'',
        [],
        ''#[derive(Clone, Debug, Deserialize, Serialize)]'',
        ''#[serde(untagged)]'',
        ''pub enum ConstantValue {'',
        ''    Int(u64),'',
        ''    Float(f64),'',
        ''}'',
        []])"
  by (simp only: parse_type_set_of_str main_def extract_version generate_rust_def
      generate_lines_version sum.case prod.case simp_thms)

text \<open>What the walk loop adds to the two collections, and when it returns.\<close>

lemma walk_step_names:
  assumes "walk_step node_str (dataclasses, enums) node = Inr (dataclasses', enums')"
  shows "map fst enums' = map fst enums
           @ [name. ClassDef name bases decorator_list body \<leftarrow> [node],
                    list_ex is_enum_base bases]
       \<and> map fst dataclasses' = map fst dataclasses
           @ [name. ClassDef name bases decorator_list body \<leftarrow> [node],
                    \<not> list_ex is_enum_base bases
                    \<and> list_ex is_dataclass_decorator decorator_list]"
  using assms by (cases node) (auto simp: Let_def split: if_splits sum.splits)

lemma walk_loop_names:
  assumes "walk_loop node_str (dataclasses, enums) nodes = Inr (dataclasses', enums')"
  shows "map fst enums' = map fst enums
           @ [name. ClassDef name bases decorator_list body \<leftarrow> nodes,
                    list_ex is_enum_base bases]
       \<and> map fst dataclasses' = map fst dataclasses
           @ [name. ClassDef name bases decorator_list body \<leftarrow> nodes,
                    \<not> list_ex is_enum_base bases
                    \<and> list_ex is_dataclass_decorator decorator_list]"
  using assms
proof (induction nodes arbitrary: dataclasses enums)
  case Nil
  then show ?case by simp
next
  case (Cons node nodes)
  from Cons.prems obtain d1 e1
    where step: "walk_step node_str (dataclasses, enums) node = Inr (d1, e1)"
      and rest: "walk_loop node_str (d1, e1) nodes = Inr (dataclasses', enums')"
    by (auto split: sum.splits)
  from walk_step_names [OF step] Cons.IH [OF rest] show ?case
    by simp
qed

lemma walk_step_raises_whatever_acc:
  "walk_step node_str acc node = Inl e \<Longrightarrow> walk_step node_str acc' node = Inl e"
  by (cases acc; cases acc'; cases node) (auto simp: Let_def split: if_splits sum.splits)

lemma walk_loop_returns:
  assumes "\<forall>node \<in> set nodes. \<forall>e. walk_step node_str ([], []) node \<noteq> Inl e"
  shows "\<exists>acc'. walk_loop node_str acc nodes = Inr acc'"
  using assms
proof (induction nodes arbitrary: acc)
  case Nil
  show ?case by simp
next
  case (Cons node nodes)
  have "\<forall>e. walk_step node_str acc node \<noteq> Inl e"
  proof (intro allI notI)
    fix e assume "walk_step node_str acc node = Inl e"
    then have "walk_step node_str ([], []) node = Inl e"
      by (rule walk_step_raises_whatever_acc)
    with Cons.prems show False by simp
  qed
  then obtain acc1 where "walk_step node_str acc node = Inr acc1"
    by (cases "walk_step node_str acc node") auto
  moreover from Cons.prems Cons.IH [of acc1]
  obtain acc' where "walk_loop node_str acc1 nodes = Inr acc'" by auto
  ultimately show ?case by simp
qed

text \<open>
  Claim C10. When \<open>extract_classes\<close> returns, the names in the enum collection are
  those of the class definitions of the walk that have \<open>Enum\<close> among their bases,
  whatever their decorators, and the names in the record collection are those of the
  class definitions that carry the \<open>dataclass\<close> decorator and do not have \<open>Enum\<close>
  among their bases, both in the order of the walk. So a class with an \<open>Enum\<close> base
  and the decorator is an enum and not a record, and no class definition is in both
  collections. It returns whenever no pass of the loop raises.
\<close>

theorem enum_classification_takes_precedence:
  "(extract_classes node_str tree = Inr (dataclasses, enums) \<longrightarrow>
      map fst enums =
        [name. ClassDef name bases decorator_list body \<leftarrow> ast_walk tree,
               list_ex is_enum_base bases]
      \<and> map fst dataclasses =
        [name. ClassDef name bases decorator_list body \<leftarrow> ast_walk tree,
               \<not> list_ex is_enum_base bases
               \<and> list_ex is_dataclass_decorator decorator_list])
   \<and> ((\<forall>node \<in> set (ast_walk tree). \<forall>e. walk_step node_str ([], []) node \<noteq> Inl e) \<longrightarrow>
        (\<exists>dataclasses enums. extract_classes node_str tree = Inr (dataclasses, enums)))"
proof (intro conjI impI)
  assume "extract_classes node_str tree = Inr (dataclasses, enums)"
  then have "walk_loop node_str ([], []) (ast_walk tree) = Inr (dataclasses, enums)"
    by (simp add: extract_classes_def)
  from walk_loop_names [OF this]
  show "map fst enums =
        [name. ClassDef name bases decorator_list body \<leftarrow> ast_walk tree,
               list_ex is_enum_base bases]"
    and "map fst dataclasses =
        [name. ClassDef name bases decorator_list body \<leftarrow> ast_walk tree,
               \<not> list_ex is_enum_base bases
               \<and> list_ex is_dataclass_decorator decorator_list]"
    by simp_all
next
  assume "\<forall>node \<in> set (ast_walk tree). \<forall>e. walk_step node_str ([], []) node \<noteq> Inl e"
  from walk_loop_returns [OF this, of "([], [])"]
  show "\<exists>dataclasses enums. extract_classes node_str tree = Inr (dataclasses, enums)"
    by (auto simp: extract_classes_def)
qed

theorem enum_classification_takes_precedence_witness:
  "ast_walk
     [ClassDef ''CommandScope'' [Name ''Enum''] [Call (Name ''dataclass'') []]
        [Assign [Name ''inside''] OtherExpr],
      ClassDef ''Version'' [] [Name ''dataclass''] [AnnAssign (Name ''major'') (Name ''int'')]]
     = [ClassDef ''CommandScope'' [Name ''Enum''] [Call (Name ''dataclass'') []]
          [Assign [Name ''inside''] OtherExpr],
        ClassDef ''Version'' [] [Name ''dataclass''] [AnnAssign (Name ''major'') (Name ''int'')],
        Assign [Name ''inside''] OtherExpr,
        AnnAssign (Name ''major'') (Name ''int'')]
   \<and> walk_step sample_str ([], [])
        (ClassDef ''CommandScope'' [Name ''Enum''] [Call (Name ''dataclass'') []]
           [Assign [Name ''inside''] OtherExpr])
       = Inr ([], [(''CommandScope'', [''inside''])])
   \<and> walk_step sample_str ([], [])
        (ClassDef ''Version'' [] [Name ''dataclass''] [AnnAssign (Name ''major'') (Name ''int'')])
       = Inr ([(''Version'', [(''major'', ''u32'')])], [])
   \<and> walk_step sample_str ([], []) (Assign [Name ''inside''] OtherExpr) = Inr ([], [])
   \<and> walk_step sample_str ([], []) (AnnAssign (Name ''major'') (Name ''int'')) = Inr ([], [])
   \<and> extract_classes sample_str
     [ClassDef ''CommandScope'' [Name ''Enum''] [Call (Name ''dataclass'') []]
        [Assign [Name ''inside''] OtherExpr],
      ClassDef ''Version'' [] [Name ''dataclass''] [AnnAssign (Name ''major'') (Name ''int'')]]
     = Inr ([(''Version'', [(''major'', ''u32'')])], [(''CommandScope'', [''inside''])])
   \<and> map fst [(''CommandScope'', [''inside''])] = [''CommandScope'']
   \<and> map fst [(''Version'', [(''major'', ''u32'')])] = [''Version'']
   \<and> [name. ClassDef name bases decorator_list body \<leftarrow> ast_walk
         [ClassDef ''CommandScope'' [Name ''Enum''] [Call (Name ''dataclass'') []]
            [Assign [Name ''inside''] OtherExpr],
          ClassDef ''Version'' [] [Name ''dataclass'']
            [AnnAssign (Name ''major'') (Name ''int'')]],
         list_ex is_enum_base bases] = [''CommandScope'']
   \<and> [name. ClassDef name bases decorator_list body \<leftarrow> ast_walk
         [ClassDef ''CommandScope'' [Name ''Enum''] [Call (Name ''dataclass'') []]
            [Assign [Name ''inside''] OtherExpr],
          ClassDef ''Version'' [] [Name ''dataclass'']
            [AnnAssign (Name ''major'') (Name ''int'')]],
         \<not> list_ex is_enum_base bases \<and> list_ex is_dataclass_decorator decorator_list]
       = [''Version'']"
proof -
  let ?tree = "[ClassDef ''CommandScope'' [Name ''Enum''] [Call (Name ''dataclass'') []]
        [Assign [Name ''inside''] OtherExpr],
      ClassDef ''Version'' [] [Name ''dataclass''] [AnnAssign (Name ''major'') (Name ''int'')]]"
  have no: "FIELD_TYPE_OVERRIDES (''Version'', ''major'') = None"
    by (simp add: FIELD_TYPE_OVERRIDES_def)
  have steps: "walk_step sample_str ([], [])
        (ClassDef ''CommandScope'' [Name ''Enum''] [Call (Name ''dataclass'') []]
           [Assign [Name ''inside''] OtherExpr])
       = Inr ([], [(''CommandScope'', [''inside''])])"
    "walk_step sample_str ([], [])
        (ClassDef ''Version'' [] [Name ''dataclass''] [AnnAssign (Name ''major'') (Name ''int'')])
       = Inr ([(''Version'', [(''major'', ''u32'')])], [])"
    by (simp_all add: is_enum_base_def is_dataclass_decorator_def
        parse_type_no_override [OF no] dict_get_def INT_TYPE_OVERRIDES_def)
  have returns: "\<forall>node \<in> set (ast_walk ?tree).
      \<forall>e. walk_step sample_str ([], []) node \<noteq> Inl e"
    by (simp add: steps del: walk_step.simps) simp
  have h: "extract_classes sample_str ?tree
     = Inr ([(''Version'', [(''major'', ''u32'')])], [(''CommandScope'', [''inside''])])"
    by (simp add: extract_classes_def is_enum_base_def is_dataclass_decorator_def
        parse_type_no_override [OF no] dict_get_def INT_TYPE_OVERRIDES_def)
  from enum_classification_takes_precedence [where node_str = sample_str and tree = ?tree
      and dataclasses = "[(''Version'', [(''major'', ''u32'')])]"
      and enums = "[(''CommandScope'', [''inside''])]"] h returns steps
  show ?thesis
    by simp
qed


section \<open>Repeated runs\<close>

text \<open>
  The source text fixes the tree. What can differ between two runs on the same text is
  \<open>str\<close> of a node, which \<open>parse_type\<close> reads for a subscript whose value is not a
  name (\<open>typing.List[int]\<close>, say), and compares with \<open>list\<close> and \<open>dict\<close>. The text
  Python prints for a node is never one of these two words, whatever the address in it.
\<close>

lemma parse_type_run_independent:
  assumes a: "\<And>node. node_str node \<noteq> ''list'' \<and> node_str node \<noteq> ''dict''"
    and a': "\<And>node. node_str' node \<noteq> ''list'' \<and> node_str' node \<noteq> ''dict''"
  shows "parse_type node_str node class_name field_name
       = parse_type node_str' node class_name field_name"
proof (induction node rule: measure_induct_rule [where f = size])
  case (less node)
  show ?case
  proof (cases "truthy (FIELD_TYPE_OVERRIDES (class_name, field_name))")
    case True
    then show ?thesis
      by (simp add: parse_type.simps [where node = node])
  next
    case no_override: False
    show ?thesis
    proof (cases node)
      case (Subscript value_node slice)
      let ?base = "case value_node of Name i \<Rightarrow> i | _ \<Rightarrow> node_str value_node"
      let ?base' = "case value_node of Name i \<Rightarrow> i | _ \<Rightarrow> node_str' value_node"
      have list_eq: "(?base = ''list'') = (?base' = ''list'')"
        and dict_eq: "(?base = ''dict'') = (?base' = ''dict'')"
        using a a' by (cases value_node; simp)+
      have slice_eq: "parse_type node_str slice class_name field_name
                    = parse_type node_str' slice class_name field_name"
        by (rule less.IH) (simp add: Subscript)
      have elt_eq: "parse_type node_str x class_name field_name
                  = parse_type node_str' x class_name field_name"
        if "slice = Tuple elts" and "x \<in> set elts" for elts x
      proof (rule less.IH)
        from that(2) have "size x < Suc (size_list size elts)"
          by (induction elts) auto
        with that(1) show "size x < size node"
          by (simp add: Subscript)
      qed
      show ?thesis
      proof (cases "?base = ''list''")
        case True
        with list_eq have "?base' = ''list''" by simp
        with True no_override show ?thesis
          by (simp add: Subscript parse_type.simps [where node = "Subscript value_node s" for s]
              slice_eq)
      next
        case not_list: False
        with list_eq have not_list': "?base' \<noteq> ''list''" by simp
        show ?thesis
        proof (cases "?base = ''dict''")
          case False
          with dict_eq have "?base' \<noteq> ''dict''" by simp
          with False not_list not_list' no_override show ?thesis
            by (simp add: Subscript parse_type.simps [where node = "Subscript value_node s" for s])
        next
          case is_dict: True
          with dict_eq have is_dict': "?base' = ''dict''" by simp
          show ?thesis
          proof (cases slice)
            case (Tuple elts)
            show ?thesis
            proof (cases elts)
              case Nil
              with Tuple is_dict is_dict' not_list not_list' no_override show ?thesis
                by (simp add: Subscript
                    parse_type.simps [where node = "Subscript value_node s" for s])
            next
              case (Cons k rest)
              have k_eq: "parse_type node_str k class_name field_name
                  = parse_type node_str' k class_name field_name"
                by (rule elt_eq [OF Tuple]) (simp add: Cons)
              show ?thesis
              proof (cases rest)
                case Nil
                with Cons Tuple is_dict is_dict' not_list not_list' no_override show ?thesis
                  by (simp add: Subscript k_eq
                      parse_type.simps [where node = "Subscript value_node s" for s]
                      split: sum.splits)
              next
                case rest: (Cons v rest')
                have v_eq: "parse_type node_str v class_name field_name
                  = parse_type node_str' v class_name field_name"
                  by (rule elt_eq [OF Tuple]) (simp add: Cons rest)
                with rest Cons Tuple is_dict is_dict' not_list not_list' no_override
                show ?thesis
                  by (simp add: Subscript k_eq
                      parse_type.simps [where node = "Subscript value_node s" for s]
                      split: sum.splits)
              qed
            qed
          qed (use is_dict is_dict' not_list not_list' no_override in
              \<open>simp_all add: Subscript
                 parse_type.simps [where node = "Subscript value_node s" for s]\<close>)
        qed
      qed
    next
      case (BinOp l op r)
      have l_eq: "parse_type node_str l class_name field_name
                = parse_type node_str' l class_name field_name"
        by (rule less.IH) (simp add: BinOp)
      have r_eq: "parse_type node_str r class_name field_name
                = parse_type node_str' r class_name field_name"
        by (rule less.IH) (simp add: BinOp)
      show ?thesis
      proof (cases op)
        case BitOr
        show ?thesis
          by (cases "parse_type node_str' l class_name field_name")
            (use no_override in \<open>simp_all add: BinOp BitOr l_eq r_eq
               parse_type.simps [where node = "BinOp l BitOr r"]\<close>)
      next
        case OtherOp
        with no_override show ?thesis
          by (simp add: BinOp parse_type.simps [where node = "BinOp l OtherOp r"])
      qed
    qed (use no_override in \<open>simp_all add:
          parse_type.simps [where node = "Constant c" for c]
          parse_type.simps [where node = "Name n" for n]
          parse_type.simps [where node = "Tuple es" for es]
          parse_type.simps [where node = "Call fn args" for fn args]
          parse_type.simps [where node = OtherExpr]\<close>)
  qed
qed

lemma fields_loop_run_independent:
  assumes a: "\<And>node. node_str node \<noteq> ''list'' \<and> node_str node \<noteq> ''dict''"
    and a': "\<And>node. node_str' node \<noteq> ''list'' \<and> node_str' node \<noteq> ''dict''"
  shows "fields_loop node_str class_name fields body
       = fields_loop node_str' class_name fields body"
proof (induction body arbitrary: fields)
  case Nil
  show ?case by simp
next
  case (Cons item body)
  show ?case
  proof (cases item)
    case (AnnAssign target annotation)
    show ?thesis
    proof (cases target)
      case (Name field_name)
      have p: "parse_type node_str annotation class_name field_name
         = parse_type node_str' annotation class_name field_name"
        by (rule parse_type_run_independent [OF a a'])
      show ?thesis
        by (cases "parse_type node_str' annotation class_name field_name")
          (simp_all add: AnnAssign Name p Cons.IH)
    qed (simp_all add: AnnAssign Cons.IH)
  qed (simp_all add: Cons.IH)
qed

lemma walk_step_run_independent:
  assumes a: "\<And>node. node_str node \<noteq> ''list'' \<and> node_str node \<noteq> ''dict''"
    and a': "\<And>node. node_str' node \<noteq> ''list'' \<and> node_str' node \<noteq> ''dict''"
  shows "walk_step node_str acc node = walk_step node_str' acc node"
proof (cases acc)
  case (Pair dataclasses enums)
  show ?thesis
  proof (cases node)
    case (ClassDef name bases decorator_list body)
    have "fields_loop node_str name [] body = fields_loop node_str' name [] body"
      by (rule fields_loop_run_independent [OF a a'])
    then show ?thesis
      by (simp add: Pair ClassDef)
  qed (simp_all add: Pair)
qed

lemma walk_loop_run_independent:
  assumes a: "\<And>node. node_str node \<noteq> ''list'' \<and> node_str node \<noteq> ''dict''"
    and a': "\<And>node. node_str' node \<noteq> ''list'' \<and> node_str' node \<noteq> ''dict''"
  shows "walk_loop node_str acc nodes = walk_loop node_str' acc nodes"
proof (induction nodes arbitrary: acc)
  case Nil
  show ?case by simp
next
  case (Cons node nodes)
  have s: "walk_step node_str acc node = walk_step node_str' acc node"
    by (rule walk_step_run_independent [OF a a'])
  show ?case
    by (cases "walk_step node_str' acc node") (simp_all add: s Cons.IH)
qed

text \<open>
  Claim C9. Two runs on the same tree, each with a \<open>str\<close> that never prints a node as
  \<open>list\<close> or \<open>dict\<close>, extract the same collections (or raise the same exception) and
  write the same text.
\<close>

theorem runs_produce_identical_output:
  assumes "\<forall>node. node_str node \<noteq> ''list'' \<and> node_str node \<noteq> ''dict''"
    and "\<forall>node. node_str' node \<noteq> ''list'' \<and> node_str' node \<noteq> ''dict''"
  shows "extract_classes node_str tree = extract_classes node_str' tree
       \<and> main node_str py tree = main node_str' py tree"
proof -
  have "walk_loop node_str ([], []) (ast_walk tree) = walk_loop node_str' ([], []) (ast_walk tree)"
    by (rule walk_loop_run_independent) (use assms in simp_all)
  then show ?thesis
    by (simp add: main_def extract_classes_def)
qed

theorem runs_produce_identical_output_witness:
  "(\<forall>node. sample_str node \<noteq> ''list'' \<and> sample_str node \<noteq> ''dict'')
   \<and> (\<forall>node. another_str node \<noteq> ''list''
            \<and> another_str node \<noteq> ''dict'')
   \<and> main sample_str sample_py
        [ClassDef ''Version'' [] [Name ''dataclass'']
           [AnnAssign (Name ''names'') (Subscript OtherExpr (Name ''str''))]]
     = main another_str sample_py
        [ClassDef ''Version'' [] [Name ''dataclass'']
           [AnnAssign (Name ''names'') (Subscript OtherExpr (Name ''str''))]]"
proof -
  have h1: "\<forall>node. sample_str node \<noteq> ''list'' \<and> sample_str node \<noteq> ''dict''"
    by (simp add: sample_str_def)
  have h2: "\<forall>node. another_str node \<noteq> ''list''
            \<and> another_str node \<noteq> ''dict''"
    by (simp add: another_str_def)
  show ?thesis
    using h1 h2 runs_produce_identical_output [OF h1 h2, where py = sample_py]
    by blast
qed

text \<open>
  The hypothesis on \<open>str\<close> is what the result rests on: a \<open>str\<close> that did print a
  node as \<open>list\<close> would turn the \<open>UNKNOWN\<close> of \<open>typing.List[str]\<close> into a \<open>Vec\<close>.
\<close>

lemma str_of_node_reaches_the_test:
  "parse_type sample_str (Subscript OtherExpr (Name ''str'')) ''Version'' ''names''
     = Inr ''UNKNOWN''
   \<and> parse_type (\<lambda>node. ''list'') (Subscript OtherExpr (Name ''str'')) ''Version'' ''names''
     = Inr ''Vec<String>''"
proof -
  have no: "FIELD_TYPE_OVERRIDES (''Version'', ''names'') = None"
    by (simp add: FIELD_TYPE_OVERRIDES_def)
  show ?thesis
    by (simp add: parse_type.simps [where node = "Subscript OtherExpr (Name ''str'')"]
        parse_type_no_override [OF no] no sample_str_def)
qed

end
